theory Spec2Isabelle
  imports Main "HOL-Library.Word"
begin

unbundle bit_operations_syntax

section \<open>Data model (shell.h)\<close>

text \<open>
  \<^verbatim>\<open>struct Command\<close> of \<^verbatim>\<open>shell.h\<close>. A \<^verbatim>\<open>std::string\<close> is a \<open>string\<close>
  (a list of bytes), the empty string standing for "not set" as in the source.
\<close>

record Command =
  arguments :: "string list"
  input_file :: string
  output_file :: string
  append_output :: bool
  background :: bool
  is_pipeline :: bool

definition new_Command :: Command where
  "new_Command = \<lparr>arguments = [], input_file = [], output_file = [],
     append_output = False, background = False, is_pipeline = False\<rparr>"

text \<open>The process environment read by \<^verbatim>\<open>std::getenv\<close>: a map from names to values.\<close>

type_synonym environment = "string \<rightharpoonup> string"

section \<open>Characters\<close>

definition backslash :: char where "backslash = CHR 0x5C"
definition squote :: char where "squote = CHR 0x27"
definition dquote :: char where "dquote = CHR 0x22"
definition pipe_char :: char where "pipe_char = CHR ''|''"
definition dollar :: char where "dollar = CHR ''$''"
definition lbrace :: char where "lbrace = CHR ''{''"
definition rbrace :: char where "rbrace = CHR ''}''"

text \<open>\<^verbatim>\<open>std::isspace\<close> in the C locale: space, and the bytes 9 to 13.\<close>

definition isspace :: "char \<Rightarrow> bool" where
  "isspace c = (let n = (of_char c :: nat) in n = 32 \<or> (9 \<le> n \<and> n \<le> 13))"

text \<open>\<^verbatim>\<open>std::isalnum\<close> in the C locale: the ASCII digits and letters.\<close>

definition isalnum :: "char \<Rightarrow> bool" where
  "isalnum c = (let n = (of_char c :: nat) in
     (48 \<le> n \<and> n \<le> 57) \<or> (65 \<le> n \<and> n \<le> 90) \<or> (97 \<le> n \<and> n \<le> 122))"

section \<open>The pipeline scanner (CommandParser::parse_pipeline)\<close>

text \<open>The local variables of \<^verbatim>\<open>parse_pipeline\<close>.\<close>

record scan_state =
  result :: "string list list"
  current_tokens :: "string list"
  current_token :: string
  in_single_quote :: bool
  in_double_quote :: bool

definition scan_init :: scan_state where
  "scan_init = \<lparr>result = [], current_tokens = [], current_token = [],
     in_single_quote = False, in_double_quote = False\<rparr>"

text \<open>The body of the \<^verbatim>\<open>|\<close> branch: close the token, then the segment.\<close>

definition pipe_flush :: "scan_state \<Rightarrow> scan_state" where
  "pipe_flush st =
    (let toks = (if current_token st \<noteq> [] \<or> current_tokens st \<noteq> []
                 then current_tokens st @ [current_token st] else current_tokens st)
     in if toks \<noteq> []
        then st\<lparr>result := result st @ [toks], current_tokens := [], current_token := []\<rparr>
        else st\<lparr>current_tokens := toks, current_token := []\<rparr>)"

text \<open>
  One iteration of the loop on a character that is not the start of an escape pair:
  the quote toggles, the pipe operator, whitespace, and every other character.
\<close>

definition scan_char :: "scan_state \<Rightarrow> char \<Rightarrow> scan_state" where
  "scan_char st c =
    (if c = squote \<and> \<not> in_double_quote st then st\<lparr>in_single_quote := \<not> in_single_quote st\<rparr>
     else if c = dquote \<and> \<not> in_single_quote st then st\<lparr>in_double_quote := \<not> in_double_quote st\<rparr>
     else if c = pipe_char \<and> \<not> in_single_quote st \<and> \<not> in_double_quote st then pipe_flush st
     else if isspace c \<and> \<not> in_single_quote st \<and> \<not> in_double_quote st
       then (if current_token st \<noteq> []
             then st\<lparr>current_tokens := current_tokens st @ [current_token st], current_token := []\<rparr>
             else st)
     else st\<lparr>current_token := current_token st @ [c]\<rparr>)"

text \<open>
  The \<^verbatim>\<open>for\<close> loop. A backslash that is not the last character of the line takes the
  next character literally, in every quote state; a backslash in last position is an
  ordinary character.
\<close>

fun scan :: "scan_state \<Rightarrow> string \<Rightarrow> scan_state" where
  "scan st [] = st"
| "scan st [c] = scan_char st c"
| "scan st (c # d # cs) =
    (if c = backslash then scan (st\<lparr>current_token := current_token st @ [d]\<rparr>) cs
     else scan (scan_char st c) (d # cs))"

text \<open>After the loop: the remaining token and segment are added, whatever the quote state.\<close>

definition scan_finish :: "scan_state \<Rightarrow> string list list" where
  "scan_finish st =
    (if current_token st \<noteq> [] \<or> current_tokens st \<noteq> []
     then result st @ [current_tokens st @ [current_token st]]
     else result st)"

definition parse_pipeline :: "string \<Rightarrow> string list list" where
  "parse_pipeline line = scan_finish (scan scan_init line)"

section \<open>The tokenizer (CommandParser::tokenize_with_quotes)\<close>

text \<open>
  The second scanner of the parser, reached through \<^verbatim>\<open>CommandParser::tokenize\<close>. It
  returns a list of tokens and has no other result.
\<close>

record tokenize_state =
  tq_tokens :: "string list"
  tq_current_token :: string
  single_quoted :: bool
  double_quoted :: bool
  tq_escaped :: bool

definition tokenize_char :: "tokenize_state \<Rightarrow> char \<Rightarrow> tokenize_state" where
  "tokenize_char st c =
    (if tq_escaped st
       then st\<lparr>tq_current_token := tq_current_token st @ [c], tq_escaped := False\<rparr>
     else if c = backslash then st\<lparr>tq_escaped := True\<rparr>
     else if c = squote \<and> \<not> double_quoted st then st\<lparr>single_quoted := \<not> single_quoted st\<rparr>
     else if c = dquote \<and> \<not> single_quoted st then st\<lparr>double_quoted := \<not> double_quoted st\<rparr>
     else if isspace c \<and> \<not> single_quoted st \<and> \<not> double_quoted st
       then (if tq_current_token st \<noteq> []
             then st\<lparr>tq_tokens := tq_tokens st @ [tq_current_token st],
                     tq_current_token := []\<rparr>
             else st)
     else st\<lparr>tq_current_token := tq_current_token st @ [c]\<rparr>)"

definition tokenize_with_quotes :: "string \<Rightarrow> string list" where
  "tokenize_with_quotes line =
    (let st = foldl tokenize_char
                \<lparr>tq_tokens = [], tq_current_token = [], single_quoted = False,
                 double_quoted = False, tq_escaped = False\<rparr> line
     in if tq_current_token st \<noteq> [] then tq_tokens st @ [tq_current_token st]
        else tq_tokens st)"

section \<open>The segment builder\<close>

text \<open>
  \<^verbatim>\<open>CommandParser::parse_redirection\<close>: an operator that has a following token takes it as
  its file; every other token, an operator in last position included, is kept.
\<close>

fun parse_redirection :: "Command \<Rightarrow> string list \<Rightarrow> Command \<times> string list" where
  "parse_redirection command [] = (command, [])"
| "parse_redirection command [token] = (command, [token])"
| "parse_redirection command (token # operand # tokens) =
    (if token = ''<'' then parse_redirection (command\<lparr>input_file := operand\<rparr>) tokens
     else if token = ''>''
       then parse_redirection (command\<lparr>output_file := operand, append_output := False\<rparr>) tokens
     else if token = ''>>''
       then parse_redirection (command\<lparr>output_file := operand, append_output := True\<rparr>) tokens
     else (case parse_redirection command (operand # tokens) of
             (command', new_tokens) \<Rightarrow> (command', token # new_tokens)))"

text \<open>\<^verbatim>\<open>CommandParser::parse_background\<close>.\<close>

definition parse_background :: "Command \<Rightarrow> string list \<Rightarrow> Command \<times> string list" where
  "parse_background command tokens =
    (if tokens \<noteq> [] \<and> last tokens = ''&''
     then (command\<lparr>background := True\<rparr>, butlast tokens)
     else (command, tokens))"

section \<open>The variable expander\<close>

text \<open>\<^verbatim>\<open>CommandParser::get_environment_variable\<close>.\<close>

definition get_environment_variable :: "environment \<Rightarrow> string \<Rightarrow> string" where
  "get_environment_variable env var_name = (case env var_name of None \<Rightarrow> [] | Some v \<Rightarrow> v)"

definition is_name_char :: "char \<Rightarrow> bool" where
  "is_name_char c = (isalnum c \<or> c = CHR ''_'')"

text \<open>
  \<^verbatim>\<open>CommandParser::expand_variables_in_token\<close>, as a recursion on the characters from
  index \<^verbatim>\<open>i\<close> on. At a \<^verbatim>\<open>$\<close> in last position neither branch runs and nothing is added
  to the result.
\<close>

function expand_variables_in_token :: "environment \<Rightarrow> string \<Rightarrow> string" where
  "expand_variables_in_token env [] = []"
| "expand_variables_in_token env (c # cs) =
    (if c = dollar then
       (case cs of
          [] \<Rightarrow> []
        | d # ds \<Rightarrow>
           if d = lbrace then
             get_environment_variable env (takeWhile (\<lambda>x. x \<noteq> rbrace) ds)
               @ expand_variables_in_token env (tl (dropWhile (\<lambda>x. x \<noteq> rbrace) ds))
           else
             get_environment_variable env (takeWhile is_name_char cs)
               @ expand_variables_in_token env (dropWhile is_name_char cs))
     else c # expand_variables_in_token env cs)"
  by pat_completeness auto
termination
proof (relation "measure (\<lambda>(env, s). length s)")
  fix env :: environment and c :: char and cs :: string and d :: char and ds :: string
  assume "cs = d # ds"
  have "length (dropWhile (\<lambda>x. x \<noteq> rbrace) ds) \<le> length ds"
    by (rule length_dropWhile_le)
  then have "length (tl (dropWhile (\<lambda>x. x \<noteq> rbrace) ds)) \<le> length ds"
    by simp
  then show "((env, tl (dropWhile (\<lambda>x. x \<noteq> rbrace) ds)), env, c # cs)
      \<in> measure (\<lambda>(env, s). length s)"
    using \<open>cs = d # ds\<close> by simp
next
  fix env :: environment and c :: char and cs :: string
  have "length (dropWhile is_name_char cs) \<le> length cs"
    by (rule length_dropWhile_le)
  then show "((env, dropWhile is_name_char cs), env, c # cs) \<in> measure (\<lambda>(env, s). length s)"
    by simp
qed simp_all

text \<open>\<^verbatim>\<open>CommandParser::expand_variables\<close>.\<close>

definition expand_variables :: "environment \<Rightarrow> string list \<Rightarrow> string list" where
  "expand_variables env tokens = map (expand_variables_in_token env) tokens"

section \<open>Building a Command\<close>

text \<open>
  \<^verbatim>\<open>CommandParser::parse_single_command\<close>; \<open>None\<close> is the null pointer. The arguments
  are assigned only when tokens remain, and are empty otherwise.
\<close>

definition parse_single_command :: "environment \<Rightarrow> string list \<Rightarrow> Command option" where
  "parse_single_command env tokens =
    (if tokens = [] then None
     else
       (case parse_redirection new_Command tokens of
          (c1, remaining1) \<Rightarrow>
            (case parse_background c1 remaining1 of
               (c2, remaining_tokens) \<Rightarrow>
                 Some (c2\<lparr>arguments := expand_variables env remaining_tokens\<rparr>))))"

text \<open>
  \<^verbatim>\<open>CommandParser::parse_command\<close>: only the first segment is turned into a Command;
  the other segments are dropped and the flag \<^verbatim>\<open>is_pipeline\<close> is set.
\<close>

definition parse_command :: "environment \<Rightarrow> string \<Rightarrow> Command option" where
  "parse_command env line =
    (if line = [] then None
     else
       (let pipeline_parts = parse_pipeline line in
        if pipeline_parts = [] then None
        else if length pipeline_parts = 1 then parse_single_command env (hd pipeline_parts)
        else
          (case parse_single_command env (hd pipeline_parts) of
             None \<Rightarrow> None
           | Some command \<Rightarrow> Some (command\<lparr>is_pipeline := True\<rparr>))))"

section \<open>The session's dispatch (Shell::execute_command)\<close>

text \<open>
  The names registered by \<^verbatim>\<open>BuiltinCommands::initialize_commands\<close>, looked up by
  \<^verbatim>\<open>BuiltinCommands::is_builtin\<close>.
\<close>

definition is_builtin :: "string \<Rightarrow> bool" where
  "is_builtin command_name =
    (command_name \<in> set [''cd'', ''pwd'', ''exit'', ''help'', ''export'', ''echo'', ''history''])"

text \<open>
  What \<^verbatim>\<open>Shell::execute_command\<close> does with a line, as the list of its calls and messages:
  the parse error written to the error stream, the call of a built-in, the pipeline notice
  written to the output stream, and the call of \<^verbatim>\<open>ProcessManager::execute_command\<close> on
  one Command. The function has no call of \<^verbatim>\<open>ProcessManager::execute_pipeline\<close>.
\<close>

datatype shell_action =
    Report_parse_failure
  | Execute_builtin Command
  | Print_pipeline_notice
  | Process_manager_execute_command Command

definition shell_execute_command :: "environment \<Rightarrow> string \<Rightarrow> shell_action list" where
  "shell_execute_command env command_line =
    (case parse_command env command_line of
       None \<Rightarrow> [Report_parse_failure]
     | Some command \<Rightarrow>
        if arguments command \<noteq> [] \<and> is_builtin (hd (arguments command))
        then [Execute_builtin command]
        else if is_pipeline command
        then [Print_pipeline_notice, Process_manager_execute_command command]
        else [Process_manager_execute_command command])"

section \<open>Executable resolution (process_manager.cpp)\<close>

text \<open>
  The operating system as the process manager sees it: \<^verbatim>\<open>stat\<close> gives the mode of a path
  or fails (\<open>None\<close>); the k-th call of \<^verbatim>\<open>pipe\<close> and of \<^verbatim>\<open>fork\<close> inside one function
  succeeds or fails; a blocking \<^verbatim>\<open>waitpid\<close> yields the status of the child.
\<close>

datatype fork_result = Fork_failed | Fork_child | Fork_parent int

datatype wstatus = Exited int | Signaled int | Other_status

record os =
  stat_mode :: "string \<Rightarrow> 32 word option"
  pipe_fails :: "nat \<Rightarrow> bool"
  fork_results :: "nat \<Rightarrow> fork_result"
  wait_status :: "int \<Rightarrow> wstatus"
  open_fails :: "string \<Rightarrow> bool"
  dup2_fails :: bool
  execvp_fails :: "string \<Rightarrow> bool"

definition S_IXUSR :: "32 word" where "S_IXUSR = 0x40"
definition S_IXGRP :: "32 word" where "S_IXGRP = 0x08"
definition S_IXOTH :: "32 word" where "S_IXOTH = 0x01"

text \<open>\<^verbatim>\<open>ProcessManager::is_executable\<close>.\<close>

definition is_executable :: "os \<Rightarrow> string \<Rightarrow> bool" where
  "is_executable sys path =
    (case stat_mode sys path of
       None \<Rightarrow> False
     | Some st_mode \<Rightarrow>
         st_mode AND S_IXUSR \<noteq> 0 \<or> st_mode AND S_IXGRP \<noteq> 0 \<or> st_mode AND S_IXOTH \<noteq> 0)"

text \<open>
  The splitting loop of \<^verbatim>\<open>ProcessManager::search_path\<close>, on the part of the string from
  \<^verbatim>\<open>start\<close> on: \<open>end\<close> is the offset of the next colon, a piece is kept when it is not
  empty, and the rest after the last colon is kept when it is not empty.
\<close>

function split_path :: "string \<Rightarrow> string list" where
  "split_path path_str =
    (if CHR '':'' \<in> set path_str
     then (let end = length (takeWhile (\<lambda>c. c \<noteq> CHR '':'') path_str)
           in (if end > 0 then [take end path_str] else [])
                @ split_path (drop (end + 1) path_str))
     else (if path_str \<noteq> [] then [path_str] else []))"
  by pat_completeness auto
termination
  by (relation "measure length") (auto intro!: diff_less dest: length_pos_if_in_set)

text \<open>The search loop of \<^verbatim>\<open>search_path\<close> over the directories.\<close>

fun search_dirs :: "os \<Rightarrow> string \<Rightarrow> string list \<Rightarrow> string" where
  "search_dirs sys command_name [] = []"
| "search_dirs sys command_name (dir # path_dirs) =
    (let full_path = dir @ ''/'' @ command_name
     in if is_executable sys full_path then full_path
        else search_dirs sys command_name path_dirs)"

definition search_path :: "os \<Rightarrow> environment \<Rightarrow> string \<Rightarrow> string" where
  "search_path sys env command_name =
    (case env ''PATH'' of
       None \<Rightarrow> []
     | Some path_str \<Rightarrow> search_dirs sys command_name (split_path path_str))"

text \<open>\<^verbatim>\<open>ProcessManager::find_executable\<close>; the empty string is "not found".\<close>

definition find_executable :: "os \<Rightarrow> environment \<Rightarrow> string \<Rightarrow> string" where
  "find_executable sys env command_name =
    (if CHR ''/'' \<in> set command_name
     then (if is_executable sys command_name then command_name else [])
     else search_path sys env command_name)"

text \<open>
  Splitting a string at every occurrence of a separator, empty pieces included: the
  reading of "split on \<^verbatim>\<open>:\<close>" that \<open>split_path\<close> is compared with.
\<close>

fun split_on :: "char \<Rightarrow> string \<Rightarrow> string list" where
  "split_on sep [] = [[]]"
| "split_on sep (c # cs) =
    (if c = sep then [] # split_on sep cs
     else (case split_on sep cs of
             [] \<Rightarrow> [[c]]
           | piece # pieces \<Rightarrow> (c # piece) # pieces))"

section \<open>The process launcher (ProcessManager::execute_command)\<close>

text \<open>
  What the process manager writes and which system calls it makes, in order. The two
  background reports stand for the lines
  \<^verbatim>\<open>Background process <pid> exited with status <code>\<close> and
  \<^verbatim>\<open>Background process <pid> terminated by signal <sig>\<close>; descriptors of a pipeline are
  named by their index in \<^verbatim>\<open>pipe_fds\<close>, standard input and output by 0 and 1.
\<close>

datatype event =
    Stderr string
  | Sys_pipe nat
  | Sys_fork
  | Sys_dup2 nat nat
  | Sys_close nat
  | Sys_waitpid int
  | Background_exited int int
  | Background_signaled int int

text \<open>
  How a call ends: it returns a status to its caller, or, in a forked child, the process
  ends with \<^verbatim>\<open>_exit\<close> or its image is replaced by \<^verbatim>\<open>execvp\<close>.
\<close>

datatype outcome =
    Returns int
  | Child_exits int
  | Child_execs string "string list"

text \<open>\<^verbatim>\<open>ProcessManager::setup_io_redirection\<close>, run in the child.\<close>

definition setup_io_redirection :: "os \<Rightarrow> Command \<Rightarrow> int \<times> event list" where
  "setup_io_redirection sys command =
    (if input_file command \<noteq> [] \<and> open_fails sys (input_file command)
       then (-1, [Stderr (''Cannot open input file: '' @ input_file command)])
     else if input_file command \<noteq> [] \<and> dup2_fails sys
       then (-1, [Stderr ''Failed to redirect input''])
     else if output_file command \<noteq> [] \<and> open_fails sys (output_file command)
       then (-1, [Stderr (''Cannot open output file: '' @ output_file command)])
     else if output_file command \<noteq> [] \<and> dup2_fails sys
       then (-1, [Stderr ''Failed to redirect output''])
     else (0, []))"

text \<open>
  \<^verbatim>\<open>ProcessManager::exec_external_command\<close> followed by the child's \<^verbatim>\<open>_exit\<close>: every
  return of \<^verbatim>\<open>exec_external_command\<close> is \<open>-1\<close>, which the child turns into status 127.
\<close>

definition child_exec :: "os \<Rightarrow> environment \<Rightarrow> Command \<Rightarrow> outcome \<times> event list" where
  "child_exec sys env command =
    (if arguments command = [] then (Child_exits 127, [])
     else
       (case setup_io_redirection sys command of
          (r, evs) \<Rightarrow>
            if r < 0 then (Child_exits 127, evs)
            else
              (let executable_path = find_executable sys env (hd (arguments command))
               in if executable_path = [] then (Child_exits 127, evs)
                  else if execvp_fails sys executable_path then (Child_exits 127, evs)
                  else (Child_execs executable_path (arguments command), evs))))"

text \<open>The translation of a wait status; \<open>dflt\<close> is the value kept when it is neither.\<close>

definition status_code :: "wstatus \<Rightarrow> int \<Rightarrow> int" where
  "status_code st dflt =
    (case st of Exited code \<Rightarrow> code | Signaled sig \<Rightarrow> 128 + sig | Other_status \<Rightarrow> dflt)"

text \<open>
  \<^verbatim>\<open>ProcessManager::execute_command\<close>. The third component is the member
  \<^verbatim>\<open>background_processes_\<close> after the call.
\<close>

definition execute_command ::
  "os \<Rightarrow> environment \<Rightarrow> int list \<Rightarrow> Command \<Rightarrow> outcome \<times> event list \<times> int list" where
  "execute_command sys env background_processes command =
    (if arguments command = [] then (Returns 0, [], background_processes)
     else
       (let cmd_name = hd (arguments command) in
        if cmd_name \<in> set [''cd'', ''pwd'', ''exit'', ''help'', ''echo'', ''export'']
        then (Returns 0, [], background_processes)
        else
          (let executable_path = find_executable sys env cmd_name in
           if executable_path = []
           then (Returns (-1), [Stderr (''Command not found: '' @ cmd_name)],
                 background_processes)
           else
             (case fork_results sys 0 of
                Fork_failed \<Rightarrow>
                  (Returns (-1), [Sys_fork, Stderr ''Failed to fork process''],
                   background_processes)
              | Fork_child \<Rightarrow>
                  (case child_exec sys env command of
                     (out, evs) \<Rightarrow> (out, Sys_fork # evs, background_processes))
              | Fork_parent pid \<Rightarrow>
                  if background command
                  then (Returns 0, [Sys_fork], background_processes @ [pid])
                  else (Returns (status_code (wait_status sys pid) 0),
                        [Sys_fork, Sys_waitpid pid], background_processes)))))"

section \<open>The pipeline orchestrator (ProcessManager::execute_pipeline_internal)\<close>

text \<open>The loop that creates the pipes, over the indices \<open>0..<num_pipes\<close>.\<close>

fun create_pipes :: "os \<Rightarrow> nat list \<Rightarrow> bool \<times> event list" where
  "create_pipes sys [] = (True, [])"
| "create_pipes sys (i # rest) =
    (if pipe_fails sys i then (False, [Sys_pipe i, Stderr ''Failed to create pipe''])
     else (case create_pipes sys rest of (ok, evs) \<Rightarrow> (ok, Sys_pipe i # evs)))"

text \<open>The child of stage \<open>i\<close>: bind the pipe ends, close every pipe descriptor, exec.\<close>

definition pipeline_child ::
  "os \<Rightarrow> environment \<Rightarrow> Command list \<Rightarrow> nat \<Rightarrow> outcome \<times> event list" where
  "pipeline_child sys env pipeline i =
    (let evs = (if i > 0 then [Sys_dup2 ((i - 1) * 2) 0] else [])
               @ (if i < length pipeline - 1 then [Sys_dup2 (i * 2 + 1) 1] else [])
               @ map Sys_close [0..<2 * (length pipeline - 1)]
     in case child_exec sys env (pipeline ! i) of (out, evs') \<Rightarrow> (out, evs @ evs'))"

text \<open>
  The loop that forks the stages, over the indices \<open>0..<pipeline.size()\<close>. It ends early
  (\<open>Inl\<close>) when \<^verbatim>\<open>fork\<close> fails and in a child; otherwise it yields \<^verbatim>\<open>child_pids\<close>.
\<close>

fun fork_children ::
  "os \<Rightarrow> environment \<Rightarrow> Command list \<Rightarrow> nat list \<Rightarrow> int list \<Rightarrow> (outcome + int list) \<times> event list"
where
  "fork_children sys env pipeline [] child_pids = (Inr child_pids, [])"
| "fork_children sys env pipeline (i # rest) child_pids =
    (case fork_results sys i of
       Fork_failed \<Rightarrow> (Inl (Returns (-1)), [Sys_fork, Stderr ''Failed to fork process''])
     | Fork_child \<Rightarrow>
         (case pipeline_child sys env pipeline i of (out, evs) \<Rightarrow> (Inl out, Sys_fork # evs))
     | Fork_parent pid \<Rightarrow>
         (case fork_children sys env pipeline rest (child_pids @ [pid]) of
            (r, evs) \<Rightarrow> (r, Sys_fork # evs)))"

text \<open>
  The loop that waits for the children; \<open>back\<close> is \<^verbatim>\<open>child_pids.back()\<close>, and the status
  is recorded for a pid equal to it.
\<close>

fun wait_children :: "os \<Rightarrow> int \<Rightarrow> int list \<Rightarrow> int \<Rightarrow> int \<times> event list" where
  "wait_children sys back [] final_status = (final_status, [])"
| "wait_children sys back (pid # rest) final_status =
    (let status = wait_status sys pid;
         final_status' = (if pid = back then status_code status final_status else final_status)
     in case wait_children sys back rest final_status' of
          (f, evs) \<Rightarrow> (f, Sys_waitpid pid # evs))"

text \<open>
  \<^verbatim>\<open>ProcessManager::execute_pipeline_internal\<close>, which \<^verbatim>\<open>execute_pipeline\<close> calls on
  pipelines of two or more commands.
\<close>

definition execute_pipeline_internal ::
  "os \<Rightarrow> environment \<Rightarrow> Command list \<Rightarrow> outcome \<times> event list" where
  "execute_pipeline_internal sys env pipeline =
    (let num_pipes = length pipeline - 1 in
     case create_pipes sys [0..<num_pipes] of
       (ok, evs1) \<Rightarrow>
         if \<not> ok then (Returns (-1), evs1)
         else
           (case fork_children sys env pipeline [0..<length pipeline] [] of
              (Inl out, evs2) \<Rightarrow> (out, evs1 @ evs2)
            | (Inr child_pids, evs2) \<Rightarrow>
                (case wait_children sys (last child_pids) child_pids 0 of
                   (final_status, evs4) \<Rightarrow>
                     (Returns final_status,
                      evs1 @ evs2 @ map Sys_close [0..<2 * num_pipes] @ evs4))))"

text \<open>\<^verbatim>\<open>ProcessManager::execute_pipeline\<close>.\<close>

definition execute_pipeline ::
  "os \<Rightarrow> environment \<Rightarrow> int list \<Rightarrow> Command list \<Rightarrow> outcome \<times> event list \<times> int list" where
  "execute_pipeline sys env background_processes pipeline =
    (if pipeline = [] then (Returns 0, [], background_processes)
     else if length pipeline = 1
       then execute_command sys env background_processes (hd pipeline)
     else (case execute_pipeline_internal sys env pipeline of
             (out, evs) \<Rightarrow> (out, evs, background_processes)))"

section \<open>The background registry (ProcessManager::cleanup_finished_processes)\<close>

text \<open>
  The children of the shell as \<^verbatim>\<open>waitpid(pid, &status, WNOHANG)\<close> sees them: a running
  child gives 0; a terminated child gives its pid and status and is gone afterwards; for
  anything else the call fails with \<open>-1\<close>.
\<close>

datatype proc_state = Running | Terminated wstatus | No_child

type_synonym process_table = "int \<Rightarrow> proc_state"

definition waitpid_nohang :: "process_table \<Rightarrow> int \<Rightarrow> int \<times> wstatus \<times> process_table" where
  "waitpid_nohang procs pid =
    (case procs pid of
       Running \<Rightarrow> (0, Other_status, procs)
     | Terminated status \<Rightarrow> (pid, status, procs(pid := No_child))
     | No_child \<Rightarrow> (-1, Other_status, procs))"

text \<open>What the sweep prints for a reaped child.\<close>

definition report :: "int \<Rightarrow> wstatus \<Rightarrow> event list" where
  "report pid status =
    (case status of
       Exited code \<Rightarrow> if code \<noteq> 0 then [Background_exited pid code] else []
     | Signaled sig \<Rightarrow> [Background_signaled pid sig]
     | Other_status \<Rightarrow> [])"

fun cleanup_loop ::
  "process_table \<Rightarrow> int list \<Rightarrow> int list \<Rightarrow> process_table \<times> int list \<times> event list" where
  "cleanup_loop procs [] still_running = (procs, still_running, [])"
| "cleanup_loop procs (pid # rest) still_running =
    (case waitpid_nohang procs pid of
       (r, status, procs') \<Rightarrow>
         if r = 0 then cleanup_loop procs' rest (still_running @ [pid])
         else if r = pid then
           (case cleanup_loop procs' rest still_running of
              (procs'', still, evs) \<Rightarrow> (procs'', still, report pid status @ evs))
         else cleanup_loop procs' rest still_running)"

text \<open>
  \<^verbatim>\<open>ProcessManager::cleanup_finished_processes\<close>: the process table after the sweep, the
  new value of \<^verbatim>\<open>background_processes_\<close>, and what was printed.
\<close>

definition cleanup_finished_processes ::
  "process_table \<Rightarrow> int list \<Rightarrow> process_table \<times> int list \<times> event list" where
  "cleanup_finished_processes procs background_processes =
     cleanup_loop procs background_processes []"

section \<open>Notions used to state the properties\<close>

text \<open>
  The quote that is still open when the scanner reaches the end of the line, if any.
\<close>

definition open_quote :: "string \<Rightarrow> char option" where
  "open_quote line =
    (let st = scan scan_init line in
     if in_single_quote st then Some squote
     else if in_double_quote st then Some dquote
     else None)"

text \<open>
  The line ends with a backslash that the scanner reads as an ordinary character,
  because no character follows it.
\<close>

fun ends_in_backslash :: "string \<Rightarrow> bool" where
  "ends_in_backslash [] = False"
| "ends_in_backslash [c] = (c = backslash)"
| "ends_in_backslash (c # d # cs) =
    (if c = backslash then ends_in_backslash cs else ends_in_backslash (d # cs))"

text \<open>
  A plain word: not empty, and free of whitespace, quotes, backslash, the pipe character
  and the dollar sign.
\<close>

definition plain_char :: "char \<Rightarrow> bool" where
  "plain_char c =
    (\<not> isspace c \<and> c \<noteq> backslash \<and> c \<noteq> squote \<and> c \<noteq> dquote \<and> c \<noteq> pipe_char
      \<and> c \<noteq> dollar)"

definition plain_word :: "string \<Rightarrow> bool" where
  "plain_word w = (w \<noteq> [] \<and> list_all plain_char w)"

text \<open>The words of a line written with one space between them.\<close>

fun join_words :: "string list \<Rightarrow> string" where
  "join_words [] = []"
| "join_words [w] = w"
| "join_words (w # v # ws) = w @ '' '' @ join_words (v # ws)"

definition is_redirection_operator :: "string \<Rightarrow> bool" where
  "is_redirection_operator t = (t = ''<'' \<or> t = ''>'' \<or> t = ''>>'')"

text \<open>
  A path that exists and has one of the three execute permission bits set: owner
  (bit 6), group (bit 3), other (bit 0).
\<close>

definition has_execute_bit :: "os \<Rightarrow> string \<Rightarrow> bool" where
  "has_execute_bit sys path =
    (case stat_mode sys path of
       None \<Rightarrow> False
     | Some st_mode \<Rightarrow> bit st_mode 6 \<or> bit st_mode 3 \<or> bit st_mode 0)"

text \<open>The first element of a list of candidates that satisfies a test, or the empty string.\<close>

definition first_match :: "(string \<Rightarrow> bool) \<Rightarrow> string list \<Rightarrow> string" where
  "first_match P candidates = (case find P candidates of None \<Rightarrow> [] | Some r \<Rightarrow> r)"

text \<open>An operating system for the examples: every call succeeds and nothing is executable.\<close>

definition bare_os :: os where
  "bare_os = \<lparr>stat_mode = (\<lambda>path. None), pipe_fails = (\<lambda>k. False),
     fork_results = (\<lambda>k. Fork_parent (100 + int k)), wait_status = (\<lambda>pid. Exited 0),
     open_fails = (\<lambda>path. False), dup2_fails = False, execvp_fails = (\<lambda>path. False)\<rparr>"

text \<open>The registry and the printed reports of a sweep, and the reports that name a pid.\<close>

definition swept_registry :: "process_table \<times> int list \<times> event list \<Rightarrow> int list" where
  "swept_registry r = fst (snd r)"

definition swept_reports :: "process_table \<times> int list \<times> event list \<Rightarrow> event list" where
  "swept_reports r = snd (snd r)"

definition concerns :: "int \<Rightarrow> event \<Rightarrow> bool" where
  "concerns pid e =
    (case e of
       Background_exited p code \<Rightarrow> p = pid
     | Background_signaled p sig \<Rightarrow> p = pid
     | _ \<Rightarrow> False)"

definition reports_for :: "int \<Rightarrow> event list \<Rightarrow> event list" where
  "reports_for pid evs = filter (concerns pid) evs"

text \<open>
  Children for the examples: 7 has exited with status 3, 8 is running, 9 has exited
  with status 0.
\<close>

definition example_children :: process_table where
  "example_children =
    (\<lambda>pid. No_child)(7 := Terminated (Exited 3), 8 := Running, 9 := Terminated (Exited 0))"

text \<open>
  Systems for the examples: one where only \<^verbatim>\<open>/b/tool\<close> exists, with mode 0755; and one
  where the third child of a pipeline is killed by signal 9 and the others exit with 1.
\<close>

definition tool_os :: os where
  "tool_os = bare_os\<lparr>stat_mode := (\<lambda>path. if path = ''/b/tool'' then Some 0x1ED else None)\<rparr>"

definition pipeline_os :: os where
  "pipeline_os = bare_os\<lparr>wait_status := (\<lambda>pid. if pid = 102 then Signaled 9 else Exited 1)\<rparr>"

definition example_pipeline :: "Command list" where
  "example_pipeline =
    [new_Command\<lparr>arguments := [''ls'']\<rparr>,
     new_Command\<lparr>arguments := [''grep'', ''foo'']\<rparr>,
     new_Command\<lparr>arguments := [''wc'', ''-l'']\<rparr>]"

section \<open>Properties\<close>

subsection \<open>Pipelines reach the launcher as their first segment only\<close>

text \<open>
  C1. The claim is that a line of N >= 2 segments gives one Command per segment and is run
  as a whole by the pipeline orchestrator. On the line \<^verbatim>\<open>ls | grep foo | wc -l\<close> the
  splitter finds three segments, but \<^verbatim>\<open>parse_command\<close> builds a Command from the first
  one only, and the session prints its notice and hands that single Command to
  \<^verbatim>\<open>ProcessManager::execute_command\<close>: the stages \<^verbatim>\<open>grep\<close> and \<^verbatim>\<open>wc\<close> are never run.
\<close>

theorem pipeline_runs_first_segment_only:
  "length (parse_pipeline ''ls | grep foo | wc -l'') = 3 \<and>
   shell_execute_command Map.empty ''ls | grep foo | wc -l'' =
     [Print_pipeline_notice,
      Process_manager_execute_command
        \<lparr>arguments = [''ls'', []], input_file = [], output_file = [],
         append_output = False, background = False, is_pipeline = True\<rparr>]"
  by code_simp

subsection \<open>Quoted operators\<close>

text \<open>
  C3. The claim is that an operator inside quotes is literal text. The scanner removes the
  quotes before the segment builder compares tokens with the operators, so in
  \<^verbatim>\<open>cat ">" out\<close> the quoted \<^verbatim>\<open>>\<close> redirects the output to \<^verbatim>\<open>out\<close>, and in
  \<^verbatim>\<open>sleep 5 '&'\<close> the quoted \<^verbatim>\<open>&\<close> puts the command in the background.
\<close>

theorem quoted_operator_is_recognized:
  "shell_execute_command Map.empty (''cat '' @ [dquote] @ ''>'' @ [dquote] @ '' out'') =
     [Process_manager_execute_command
        \<lparr>arguments = [''cat''], input_file = [], output_file = ''out'',
         append_output = False, background = False, is_pipeline = False\<rparr>] \<and>
   shell_execute_command Map.empty (''sleep 5 '' @ [squote] @ ''&'' @ [squote]) =
     [Process_manager_execute_command
        \<lparr>arguments = [''sleep'', ''5''], input_file = [], output_file = [],
         append_output = False, background = True, is_pipeline = False\<rparr>]"
  by code_simp

subsection \<open>Command not found\<close>

text \<open>
  C6. The claim is that a command that cannot be resolved is reported, nothing is
  spawned, and the status is 127. With no executable \<^verbatim>\<open>nosuchcmd\<close> on the path the
  launcher writes the message and makes no \<^verbatim>\<open>fork\<close>, but the status it returns is -1.
\<close>

theorem command_not_found_returns_minus_one:
  "execute_command bare_os [''PATH'' \<mapsto> ''/bin''] []
     (new_Command\<lparr>arguments := [''nosuchcmd'']\<rparr>) =
   (Returns (- 1), [Stderr ''Command not found: nosuchcmd''], [])"
  by code_simp

subsection \<open>The background sweep\<close>

lemma reports_for_report:
  "reports_for pid (report q st @ evs) = (if q = pid then report q st else []) @ reports_for pid evs"
  by (auto simp: reports_for_def report_def concerns_def split: wstatus.splits)

lemma step_Running:
  "procs q = Running \<Longrightarrow> cleanup_loop procs (q # pids) acc = cleanup_loop procs pids (acc @ [q])"
  by (simp add: waitpid_nohang_def)

lemma step_No_child:
  "procs q = No_child \<Longrightarrow> cleanup_loop procs (q # pids) acc = cleanup_loop procs pids acc"
  by (simp add: waitpid_nohang_def report_def split: prod.splits)

lemma step_Terminated_zero:
  "procs q = Terminated st \<Longrightarrow> q = 0 \<Longrightarrow>
   cleanup_loop procs (q # pids) acc = cleanup_loop (procs(q := No_child)) pids (acc @ [q])"
  by (simp add: waitpid_nohang_def)

lemma step_Terminated:
  "procs q = Terminated st \<Longrightarrow> q \<noteq> 0 \<Longrightarrow>
   cleanup_loop procs (q # pids) acc =
     (case cleanup_loop (procs(q := No_child)) pids acc of
        (p, s, e) \<Rightarrow> (p, s, report q st @ e))"
  by (simp add: waitpid_nohang_def)

declare cleanup_loop.simps(2) [simp del]

lemma reports_for_append:
  "reports_for pid (xs @ ys) = reports_for pid xs @ reports_for pid ys"
  by (simp add: reports_for_def)

lemma step_other:
  assumes "q \<noteq> pid"
  shows "\<exists>procs1 acc1 pre.
           cleanup_loop procs (q # pids) acc =
             (case cleanup_loop procs1 pids acc1 of (p, s, e) \<Rightarrow> (p, s, pre @ e))
         \<and> procs1 pid = procs pid \<and> (pid \<in> set acc1 \<longleftrightarrow> pid \<in> set acc)
         \<and> reports_for pid pre = []"
proof (cases "procs q")
  case Running
  have "cleanup_loop procs (q # pids) acc =
          (case cleanup_loop procs pids (acc @ [q]) of (p, s, e) \<Rightarrow> (p, s, [] @ e))"
    using Running by (simp add: step_Running)
  then show ?thesis using assms by (fastforce simp: reports_for_def)
next
  case (Terminated st)
  show ?thesis
  proof (cases "q = 0")
    case True
    have "cleanup_loop procs (q # pids) acc =
            (case cleanup_loop (procs(q := No_child)) pids (acc @ [q]) of
               (p, s, e) \<Rightarrow> (p, s, [] @ e))"
      using Terminated True by (simp add: step_Terminated_zero)
    moreover have "(procs(q := No_child)) pid = procs pid" using assms by simp
    moreover have "pid \<in> set (acc @ [q]) \<longleftrightarrow> pid \<in> set acc" using assms by auto
    moreover have "reports_for pid [] = []" by (simp add: reports_for_def)
    ultimately show ?thesis by blast
  next
    case False
    have "cleanup_loop procs (q # pids) acc =
            (case cleanup_loop (procs(q := No_child)) pids acc of
               (p, s, e) \<Rightarrow> (p, s, report q st @ e))"
      using Terminated False by (simp add: step_Terminated)
    moreover have "(procs(q := No_child)) pid = procs pid" using assms by simp
    moreover have "reports_for pid (report q st) = []"
      using assms reports_for_report[of pid q st "[]"] by (simp add: reports_for_def)
    ultimately show ?thesis by blast
  qed
next
  case No_child
  have "cleanup_loop procs (q # pids) acc =
          (case cleanup_loop procs pids acc of (p, s, e) \<Rightarrow> (p, s, [] @ e))"
    using No_child by (simp add: step_No_child)
  moreover have "reports_for pid [] = []" by (simp add: reports_for_def)
  ultimately show ?thesis by blast
qed

lemma cleanup_loop_gone:
  "procs pid \<noteq> Running \<Longrightarrow> (\<forall>st. procs pid = Terminated st \<longrightarrow> pid \<notin> set pids) \<Longrightarrow>
   reports_for pid (swept_reports (cleanup_loop procs pids acc)) = [] \<and>
   (pid \<in> set (swept_registry (cleanup_loop procs pids acc)) \<longleftrightarrow> pid \<in> set acc)"
proof (induction pids arbitrary: procs acc)
  case Nil
  then show ?case by (simp add: reports_for_def swept_reports_def swept_registry_def)
next
  case (Cons q pids)
  show ?case
  proof (cases "q = pid")
    case True
    with Cons.prems have nc: "procs q = No_child" by (cases "procs pid") auto
    have ih: "reports_for pid (swept_reports (cleanup_loop procs pids acc)) = [] \<and>
      (pid \<in> set (swept_registry (cleanup_loop procs pids acc)) \<longleftrightarrow> pid \<in> set acc)"
      by (rule Cons.IH) (use Cons.prems in auto)
    show ?thesis unfolding step_No_child[where procs=procs and q=q, OF nc] by (rule ih)
  next
    case False
    from step_other[OF False, of procs pids acc] obtain procs1 acc1 pre where
      st: "cleanup_loop procs (q # pids) acc =
             (case cleanup_loop procs1 pids acc1 of (p, s, e) \<Rightarrow> (p, s, pre @ e))"
      and p1: "procs1 pid = procs pid" and a1: "pid \<in> set acc1 \<longleftrightarrow> pid \<in> set acc"
      and pre: "reports_for pid pre = []" by blast
    have ih: "reports_for pid (swept_reports (cleanup_loop procs1 pids acc1)) = [] \<and>
      (pid \<in> set (swept_registry (cleanup_loop procs1 pids acc1)) \<longleftrightarrow> pid \<in> set acc1)"
      by (rule Cons.IH) (use Cons.prems p1 in auto)
    show ?thesis unfolding st using ih pre a1
      by (simp add: swept_reports_def swept_registry_def case_prod_unfold reports_for_append)
  qed
qed

lemma cleanup_loop_terminated:
  "procs pid = Terminated st \<Longrightarrow> pid \<noteq> 0 \<Longrightarrow> pid \<in> set pids \<Longrightarrow>
   reports_for pid (swept_reports (cleanup_loop procs pids acc)) = report pid st \<and>
   (pid \<in> set (swept_registry (cleanup_loop procs pids acc)) \<longleftrightarrow> pid \<in> set acc)"
proof (induction pids arbitrary: procs acc)
  case Nil
  then show ?case by simp
next
  case (Cons q pids)
  show ?case
  proof (cases "q = pid")
    case True
    have g: "reports_for pid (swept_reports (cleanup_loop (procs(pid := No_child)) pids acc)) = []
      \<and> (pid \<in> set (swept_registry (cleanup_loop (procs(pid := No_child)) pids acc))
           \<longleftrightarrow> pid \<in> set acc)"
      by (rule cleanup_loop_gone) auto
    have st: "cleanup_loop procs (q # pids) acc =
            (case cleanup_loop (procs(pid := No_child)) pids acc of
               (p, s, e) \<Rightarrow> (p, s, report pid st @ e))"
      using Cons.prems True by (simp add: step_Terminated)
    show ?thesis unfolding st using g
      by (simp add: swept_reports_def swept_registry_def case_prod_unfold reports_for_report)
  next
    case False
    then have mem: "pid \<in> set pids" using Cons.prems by auto
    from step_other[OF False, of procs pids acc] obtain procs1 acc1 pre where
      st: "cleanup_loop procs (q # pids) acc =
             (case cleanup_loop procs1 pids acc1 of (p, s, e) \<Rightarrow> (p, s, pre @ e))"
      and p1: "procs1 pid = procs pid" and a1: "pid \<in> set acc1 \<longleftrightarrow> pid \<in> set acc"
      and pre: "reports_for pid pre = []" by blast
    have ih: "reports_for pid (swept_reports (cleanup_loop procs1 pids acc1)) = report pid st \<and>
      (pid \<in> set (swept_registry (cleanup_loop procs1 pids acc1)) \<longleftrightarrow> pid \<in> set acc1)"
      by (rule Cons.IH) (use Cons.prems p1 mem in auto)
    show ?thesis unfolding st using ih pre a1
      by (simp add: swept_reports_def swept_registry_def case_prod_unfold reports_for_append)
  qed
qed

lemma cleanup_loop_keeps_acc:
  "x \<in> set acc \<Longrightarrow> x \<in> set (swept_registry (cleanup_loop procs pids acc))"
proof (induction pids arbitrary: procs acc)
  case Nil
  then show ?case by (simp add: swept_registry_def)
next
  case (Cons q pids)
  show ?case
  proof (cases "procs q")
    case Running
    have "x \<in> set (swept_registry (cleanup_loop procs pids (acc @ [q])))"
      by (rule Cons.IH) (use Cons.prems in simp)
    then show ?thesis using Running by (simp add: step_Running)
  next
    case (Terminated st)
    have a: "x \<in> set (swept_registry (cleanup_loop (procs(q := No_child)) pids (acc @ [q])))"
      by (rule Cons.IH) (use Cons.prems in simp)
    have b: "x \<in> set (swept_registry (cleanup_loop (procs(q := No_child)) pids acc))"
      by (rule Cons.IH) (use Cons.prems in simp)
    show ?thesis
    proof (cases "q = 0")
      case True
      show ?thesis unfolding step_Terminated_zero[where procs=procs and q=q, OF Terminated True] by (rule a)
    next
      case False
      show ?thesis unfolding step_Terminated[where procs=procs and q=q, OF Terminated False] using b
        by (simp add: swept_registry_def case_prod_unfold)
    qed
  next
    case No_child
    have "x \<in> set (swept_registry (cleanup_loop procs pids acc))"
      by (rule Cons.IH) (use Cons.prems in simp)
    then show ?thesis using No_child by (simp add: step_No_child)
  qed
qed

lemma cleanup_loop_running:
  "procs pid = Running \<Longrightarrow> pid \<in> set pids \<Longrightarrow>
   pid \<in> set (swept_registry (cleanup_loop procs pids acc))"
proof (induction pids arbitrary: procs acc)
  case Nil
  then show ?case by simp
next
  case (Cons q pids)
  show ?case
  proof (cases "q = pid")
    case True
    have "pid \<in> set (swept_registry (cleanup_loop procs pids (acc @ [pid])))"
      by (rule cleanup_loop_keeps_acc) simp
    then show ?thesis using Cons.prems True by (simp add: step_Running)
  next
    case False
    then have mem: "pid \<in> set pids" using Cons.prems by auto
    from step_other[OF False, of procs pids acc] obtain procs1 acc1 pre where
      st: "cleanup_loop procs (q # pids) acc =
             (case cleanup_loop procs1 pids acc1 of (p, s, e) \<Rightarrow> (p, s, pre @ e))"
      and p1: "procs1 pid = procs pid" by blast
    have ih: "pid \<in> set (swept_registry (cleanup_loop procs1 pids acc1))"
      by (rule Cons.IH) (use Cons.prems p1 mem in auto)
    show ?thesis unfolding st using ih
      by (simp add: swept_registry_def case_prod_unfold)
  qed
qed

lemma cleanup_loop_absent:
  "pid \<notin> set pids \<Longrightarrow>
   reports_for pid (swept_reports (cleanup_loop procs pids acc)) = [] \<and>
   (pid \<in> set (swept_registry (cleanup_loop procs pids acc)) \<longleftrightarrow> pid \<in> set acc)"
proof (induction pids arbitrary: procs acc)
  case Nil
  then show ?case by (simp add: reports_for_def swept_reports_def swept_registry_def)
next
  case (Cons q pids)
  then have ne: "q \<noteq> pid" by auto
  from step_other[OF ne, of procs pids acc] obtain procs1 acc1 pre where
    st: "cleanup_loop procs (q # pids) acc =
           (case cleanup_loop procs1 pids acc1 of (p, s, e) \<Rightarrow> (p, s, pre @ e))"
    and a1: "pid \<in> set acc1 \<longleftrightarrow> pid \<in> set acc"
    and pre: "reports_for pid pre = []" by blast
  have ih: "reports_for pid (swept_reports (cleanup_loop procs1 pids acc1)) = [] \<and>
    (pid \<in> set (swept_registry (cleanup_loop procs1 pids acc1)) \<longleftrightarrow> pid \<in> set acc1)"
    by (rule Cons.IH) (use Cons.prems in auto)
  show ?case unfolding st using ih pre a1
    by (simp add: swept_reports_def swept_registry_def case_prod_unfold reports_for_append)
qed

text \<open>
  C9, as amended. For a tracked pid (other than 0), one sweep keeps it when the child is
  still running. When the child has terminated, the sweep removes it and prints one line
  for it if it exited with a status other than 0 or was ended by a signal, and nothing if
  it exited with status 0; a second sweep, whatever the children have become meanwhile,
  prints nothing for that pid and does not bring it back.
\<close>

theorem sweep_retains_running_reaps_terminated:
  assumes "pid \<in> set background_processes" and "pid \<noteq> 0"
  shows "(procs pid = Running \<longrightarrow>
            pid \<in> set (swept_registry (cleanup_finished_processes procs background_processes)))
       \<and> (\<forall>st. procs pid = Terminated st \<longrightarrow>
            pid \<notin> set (swept_registry (cleanup_finished_processes procs background_processes))
          \<and> reports_for pid (swept_reports (cleanup_finished_processes procs background_processes))
             = (case st of
                  Exited code \<Rightarrow> if code = 0 then [] else [Background_exited pid code]
                | Signaled sig \<Rightarrow> [Background_signaled pid sig]
                | Other_status \<Rightarrow> [])
          \<and> (\<forall>procs2. 
               reports_for pid (swept_reports (cleanup_finished_processes procs2
                 (swept_registry (cleanup_finished_processes procs background_processes)))) = []
             \<and> pid \<notin> set (swept_registry (cleanup_finished_processes procs2
                 (swept_registry (cleanup_finished_processes procs background_processes))))))"
proof (intro conjI impI allI)
  assume "procs pid = Running"
  then show "pid \<in> set (swept_registry (cleanup_finished_processes procs background_processes))"
    using assms(1) by (simp add: cleanup_finished_processes_def cleanup_loop_running)
next
  fix st assume t: "procs pid = Terminated st"
  from cleanup_loop_terminated[where procs=procs and pid=pid and acc="[]", OF t assms(2,1)]
  show gone: "pid \<notin> set (swept_registry (cleanup_finished_processes procs background_processes))"
    and "reports_for pid (swept_reports (cleanup_finished_processes procs background_processes))
             = (case st of
                  Exited code \<Rightarrow> if code = 0 then [] else [Background_exited pid code]
                | Signaled sig \<Rightarrow> [Background_signaled pid sig]
                | Other_status \<Rightarrow> [])"
    by (simp_all add: cleanup_finished_processes_def report_def split: wstatus.splits)
  fix procs2
  let ?reg = "swept_registry (cleanup_finished_processes procs background_processes)"
  from cleanup_loop_absent[OF gone, of procs2 "[]"]
  show "reports_for pid (swept_reports (cleanup_finished_processes procs2 ?reg)) = []"
    and "pid \<notin> set (swept_registry (cleanup_finished_processes procs2 ?reg))"
    by (simp_all add: cleanup_finished_processes_def)
qed


theorem sweep_retains_running_reaps_terminated_witness:
  "(7::int) \<in> set [7, 8, 9] \<and> (7::int) \<noteq> 0
   \<and> 7 \<notin> set (swept_registry (cleanup_finished_processes example_children [7, 8, 9]))
   \<and> reports_for 7 (swept_reports (cleanup_finished_processes example_children [7, 8, 9]))
       = [Background_exited 7 3]
   \<and> reports_for 7 (swept_reports (cleanup_finished_processes example_children
        (swept_registry (cleanup_finished_processes example_children [7, 8, 9])))) = []"
  using sweep_retains_running_reaps_terminated [of 7 "[7, 8, 9]" example_children]
  by (simp add: example_children_def)

text \<open>
  C9 as stated fails for a child that exited with status 0: it is removed from the
  registry, and its exit code is not reported.
\<close>

theorem sweep_silent_on_status_zero:
  "example_children 9 = Terminated (Exited 0)
   \<and> swept_registry (cleanup_finished_processes example_children [9]) = []
   \<and> swept_reports (cleanup_finished_processes example_children [9]) = []"
  by (simp add: example_children_def cleanup_finished_processes_def swept_registry_def
      swept_reports_def step_Terminated report_def)

subsection \<open>Tokens and redirection operators\<close>

lemma parse_redirection_trailing:
  "list_all (\<lambda>t. \<not> is_redirection_operator t) ts \<Longrightarrow>
   parse_redirection c (ts @ [op]) = (c, ts @ [op])"
  by (induction c ts rule: parse_redirection.induct) (auto simp: is_redirection_operator_def)

lemma parse_redirection_plain:
  "list_all (\<lambda>t. \<not> is_redirection_operator t) ts \<Longrightarrow> parse_redirection c ts = (c, ts)"
  by (induction c ts rule: parse_redirection.induct) (auto simp: is_redirection_operator_def)

lemma expand_no_dollar: "dollar \<notin> set w \<Longrightarrow> expand_variables_in_token env w = w"
  by (induction w) auto

text \<open>
  On the tokens of a segment: when the only redirection operator is the last token, the
  segment builder returns a Command without redirection and keeps the operator as the
  last argument.
\<close>

lemma parse_single_command_trailing_operator:
  assumes "is_redirection_operator op"
    and "list_all (\<lambda>t. \<not> is_redirection_operator t) ts"
  shows "parse_single_command env (ts @ [op]) =
     Some (new_Command\<lparr>arguments := expand_variables env ts @ [op]\<rparr>)"
proof -
  have "op \<noteq> ''&''"
    using assms(1) by (auto simp: is_redirection_operator_def)
  moreover have "expand_variables_in_token env op = op"
    using assms(1) by (auto simp: is_redirection_operator_def dollar_def expand_no_dollar)
  ultimately show ?thesis
    using parse_redirection_trailing [OF assms(2)]
    by (simp add: parse_single_command_def parse_background_def expand_variables_def)
qed

subsection \<open>A dollar sign with an empty name\<close>

text \<open>
  C10, as amended. When the expander is at a \<^verbatim>\<open>$\<close> followed by a character that is neither
  \<^verbatim>\<open>{\<close> nor a letter, digit or underscore, the \<^verbatim>\<open>$\<close> is not emitted: the value of the
  variable with the empty name is put in its place (nothing, when the environment has no
  such variable), and scanning continues with the character after the \<^verbatim>\<open>$\<close>.
\<close>

theorem bare_dollar_is_replaced_by_empty_name_lookup:
  assumes "d \<noteq> lbrace" and "\<not> is_name_char d"
  shows "expand_variables_in_token env (dollar # d # rest) =
           get_environment_variable env [] @ expand_variables_in_token env (d # rest)"
  using assms by simp

theorem bare_dollar_is_replaced_by_empty_name_lookup_witness:
  "CHR ''-'' \<noteq> lbrace \<and> \<not> is_name_char CHR ''-''
   \<and> expand_variables_in_token Map.empty (dollar # CHR ''-'' # ''b'') = ''-b''"
  using bare_dollar_is_replaced_by_empty_name_lookup [of "CHR ''-''" Map.empty "''b''"]
  by (simp add: lbrace_def is_name_char_def isalnum_def get_environment_variable_def dollar_def)

text \<open>
  C10 as stated fails on the token \<^verbatim>\<open>a$-b\<close>: the result is \<^verbatim>\<open>a-b\<close>, without the \<^verbatim>\<open>$\<close>.
\<close>

theorem bare_dollar_is_dropped:
  "expand_variables_in_token Map.empty ''a$-b'' = ''a-b''
   \<and> CHR ''$'' \<notin> set (expand_variables_in_token Map.empty ''a$-b'')"
  by code_simp

subsection \<open>Executable resolution\<close>

lemma split_on_no_sep: "sep \<notin> set xs \<Longrightarrow> split_on sep xs = [xs]"
  by (induction xs) auto

lemma split_on_append: "sep \<notin> set xs \<Longrightarrow> split_on sep (xs @ sep # ys) = xs # split_on sep ys"
  by (induction xs) auto

declare split_path.simps [simp del]

lemma split_path_eq: "split_path p = filter (\<lambda>dir. dir \<noteq> []) (split_on CHR '':'' p)"
proof (induction p rule: split_path.induct)
  case (1 p)
  show ?case
  proof (cases "CHR '':'' \<in> set p")
    case False
    then show ?thesis by (subst split_path.simps) (simp add: split_on_no_sep)
  next
    case True
    let ?pre = "takeWhile (\<lambda>c. c \<noteq> CHR '':'') p"
    let ?k = "length ?pre"
    let ?rest = "drop (?k + 1) p"
    have dw: "dropWhile (\<lambda>c. c \<noteq> CHR '':'') p \<noteq> []"
      using True by (simp add: dropWhile_eq_Nil_conv)
    have hd: "hd (dropWhile (\<lambda>c. c \<noteq> CHR '':'') p) = CHR '':''"
      using hd_dropWhile[OF dw] by simp
    have d: "dropWhile (\<lambda>c. c \<noteq> CHR '':'') p = drop ?k p"
      by (rule dropWhile_eq_drop)
    have "tl (drop ?k p) = ?rest"
      by (simp add: drop_Suc tl_drop)
    then have "dropWhile (\<lambda>c. c \<noteq> CHR '':'') p = CHR '':'' # ?rest"
      using dw hd d by (metis list.collapse)
    then have p: "p = ?pre @ CHR '':'' # ?rest"
      using takeWhile_dropWhile_id[of "\<lambda>c. c \<noteq> CHR '':''" p] by simp
    have nosep: "CHR '':'' \<notin> set ?pre"
      by (auto dest: set_takeWhileD)
    have so: "split_on CHR '':'' p = ?pre # split_on CHR '':'' ?rest"
      using split_on_append[OF nosep, of ?rest] p by simp
    have tk: "take ?k p = ?pre" by (rule takeWhile_eq_take[symmetric])
    have ih: "split_path ?rest = filter (\<lambda>dir. dir \<noteq> []) (split_on CHR '':'' ?rest)"
      using "1.IH"[OF True refl] by simp
    have sp: "split_path p = (if 0 < ?k then [take ?k p] else []) @ split_path ?rest"
      by (subst split_path.simps) (simp add: True Let_def)
    have "(if 0 < ?k then [?pre] else []) @ filter (\<lambda>dir. dir \<noteq> []) (split_on CHR '':'' ?rest)
        = filter (\<lambda>dir. dir \<noteq> []) (?pre # split_on CHR '':'' ?rest)"
      by simp
    then show ?thesis
      unfolding sp so ih tk .
  qed
qed

lemma and_bit_64: "(m :: 32 word) AND 0x40 \<noteq> 0 \<longleftrightarrow> bit m 6"
  using and_exp_eq_0_iff_not_bit[of m 6] by simp
lemma and_bit_8: "(m :: 32 word) AND 0x08 \<noteq> 0 \<longleftrightarrow> bit m 3"
  using and_exp_eq_0_iff_not_bit[of m 3] by simp
lemma and_bit_1: "(m :: 32 word) AND 0x01 \<noteq> 0 \<longleftrightarrow> bit m 0"
  using and_exp_eq_0_iff_not_bit[of m 0] by simp

lemma is_executable_bits: "is_executable sys path = has_execute_bit sys path"
  by (simp add: is_executable_def has_execute_bit_def S_IXUSR_def S_IXGRP_def S_IXOTH_def
      and_bit_64 and_bit_8 and_bit_1 split: option.splits)

lemma search_dirs_first_match:
  "search_dirs sys name dirs =
     first_match (has_execute_bit sys) (map (\<lambda>dir. dir @ ''/'' @ name) dirs)"
  by (induction dirs) (simp_all add: first_match_def is_executable_bits Let_def)

text \<open>
  C7. For a command name without \<^verbatim>\<open>/\<close>, resolution splits \<^verbatim>\<open>PATH\<close> at the colons, joins
  each directory (the non-empty pieces, in their order) with \<^verbatim>\<open>/\<close> and the name, and
  returns the first of these candidates that exists and has an execute permission bit
  set for owner, group or other; the empty string when there is none.
\<close>

theorem path_search_first_match:
  assumes "CHR ''/'' \<notin> set command_name" and "env ''PATH'' = Some path_str"
  shows "find_executable sys env command_name =
     first_match (has_execute_bit sys)
       (map (\<lambda>dir. dir @ ''/'' @ command_name)
          (filter (\<lambda>dir. dir \<noteq> []) (split_on CHR '':'' path_str)))"
  using assms
  by (simp add: find_executable_def search_path_def search_dirs_first_match split_path_eq)

text \<open>With \<^verbatim>\<open>PATH=/a:/b\<close> and an executable only at \<^verbatim>\<open>/b/tool\<close>, the result is \<^verbatim>\<open>/b/tool\<close>.\<close>

theorem path_search_first_match_witness:
  "CHR ''/'' \<notin> set ''tool'' \<and> [''PATH'' \<mapsto> ''/a:/b''] ''PATH'' = Some ''/a:/b''
   \<and> find_executable tool_os [''PATH'' \<mapsto> ''/a:/b''] ''tool'' = ''/b/tool''"
proof -
  have "first_match (has_execute_bit tool_os)
       (map (\<lambda>dir. dir @ ''/'' @ ''tool'')
          (filter (\<lambda>dir. dir \<noteq> []) (split_on CHR '':'' ''/a:/b''))) = ''/b/tool''"
    by code_simp
  then show ?thesis
    using path_search_first_match [of "''tool''" "[''PATH'' \<mapsto> ''/a:/b'']" "''/a:/b''" tool_os]
    by simp
qed

subsection \<open>The pipeline orchestrator\<close>

lemma create_pipes_all:
  "\<forall>i\<in>set idx. \<not> pipe_fails sys i \<Longrightarrow> create_pipes sys idx = (True, map Sys_pipe idx)"
  by (induction idx) auto

lemma fork_children_all:
  "\<forall>i\<in>set idx. fork_results sys i = Fork_parent (pid_of i) \<Longrightarrow>
   fork_children sys env pipeline idx child_pids =
     (Inr (child_pids @ map pid_of idx), replicate (length idx) Sys_fork)"
  by (induction idx arbitrary: child_pids) auto

lemma status_code_idem: "status_code st (status_code st f) = status_code st f"
  by (cases st) (simp_all add: status_code_def)

lemma wait_children_all:
  "wait_children sys back pids f =
     (if back \<in> set pids then status_code (wait_status sys back) f else f, map Sys_waitpid pids)"
  by (induction pids arbitrary: f) (auto simp: Let_def status_code_idem)

text \<open>
  C8. For a pipeline of N >= 2 commands, when every \<^verbatim>\<open>pipe\<close> and \<^verbatim>\<open>fork\<close> call succeeds
  (\<open>pids\<close> being the children's pids in stage order), the orchestrator creates N-1 pipes,
  forks N times, closes the 2(N-1) pipe descriptors, waits for each of the N children in
  order, and returns the status of the last child alone: its exit code, or 128 plus the
  signal number.
\<close>

theorem pipeline_runs_all_stages_last_status:
  assumes "2 \<le> length pipeline"
    and "length pids = length pipeline"
    and "\<forall>i < length pipeline - 1. \<not> pipe_fails sys i"
    and "\<forall>i < length pipeline. fork_results sys i = Fork_parent (pids ! i)"
  shows "execute_pipeline_internal sys env pipeline =
     (Returns (case wait_status sys (last pids) of
                 Exited code \<Rightarrow> code | Signaled sig \<Rightarrow> 128 + sig | Other_status \<Rightarrow> 0),
      map Sys_pipe [0..<length pipeline - 1]
      @ replicate (length pipeline) Sys_fork
      @ map Sys_close [0..<2 * (length pipeline - 1)]
      @ map Sys_waitpid pids)"
proof -
  have a: "create_pipes sys [0..<length pipeline - 1] = (True, map Sys_pipe [0..<length pipeline - 1])"
    by (rule create_pipes_all) (use assms(3) in simp)
  have "fork_children sys env pipeline [0..<length pipeline] [] =
     (Inr ([] @ map (\<lambda>i. pids ! i) [0..<length pipeline]), replicate (length [0..<length pipeline]) Sys_fork)"
    by (rule fork_children_all) (use assms(4) in simp)
  moreover have "map (\<lambda>i. pids ! i) [0..<length pipeline] = pids"
    using assms(2) map_nth[of pids] by simp
  ultimately have b: "fork_children sys env pipeline [0..<length pipeline] [] =
     (Inr pids, replicate (length pipeline) Sys_fork)" by simp
  have ne: "pids \<noteq> []" using assms(1,2) by auto
  then have c: "wait_children sys (last pids) pids 0 =
     (status_code (wait_status sys (last pids)) 0, map Sys_waitpid pids)"
    by (simp add: wait_children_all)
  show ?thesis
    unfolding execute_pipeline_internal_def Let_def a b c
    by (simp add: c status_code_def)
qed


theorem pipeline_runs_all_stages_last_status_witness:
  "2 \<le> length example_pipeline \<and> length [100, 101, 102 :: int] = length example_pipeline
   \<and> execute_pipeline_internal pipeline_os Map.empty example_pipeline =
      (Returns 137,
       [Sys_pipe 0, Sys_pipe 1, Sys_fork, Sys_fork, Sys_fork,
        Sys_close 0, Sys_close 1, Sys_close 2, Sys_close 3,
        Sys_waitpid 100, Sys_waitpid 101, Sys_waitpid 102])"
proof -
  have n: "length example_pipeline = 3"
    by (simp add: example_pipeline_def)
  have h1: "2 \<le> length example_pipeline" and h2: "length [100, 101, 102 :: int] = length example_pipeline"
    by (simp_all add: n)
  have h3: "\<forall>i < length example_pipeline - 1. \<not> pipe_fails pipeline_os i"
    by (simp add: pipeline_os_def bare_os_def)
  have h4: "\<forall>i < length example_pipeline.
              fork_results pipeline_os i = Fork_parent ([100, 101, 102] ! i)"
    by (auto simp: n pipeline_os_def bare_os_def less_Suc_eq numeral_3_eq_3)
  have u: "[0..<3] = [0, 1, 2]" "[0..<2] = [0, 1]" "[0..<4] = [0, 1, 2, 3]"
    by (simp_all add: upt_rec)
  show ?thesis
    using pipeline_runs_all_stages_last_status [OF h1 h2 h3 h4, of Map.empty] h1 h2
    by (simp add: n u pipeline_os_def bare_os_def numeral_3_eq_3)
qed

subsection \<open>A quote left open at the end of the line\<close>

lemma scan_cons: "c \<noteq> backslash \<Longrightarrow> scan st (c # rest) = scan (scan_char st c) rest"
  by (cases rest) simp_all

lemma scan_append:
  "\<not> ends_in_backslash xs \<Longrightarrow> scan st (xs @ ys) = scan (scan st xs) ys"
proof (induction st xs rule: scan.induct)
  case (1 st)
  then show ?case by simp
next
  case (2 st c)
  then show ?case by (simp add: scan_cons)
next
  case (3 st c d cs)
  then show ?case by (simp split: if_splits)
qed

lemma pipe_flush_flags:
  "in_single_quote (pipe_flush st) = in_single_quote st"
  "in_double_quote (pipe_flush st) = in_double_quote st"
  by (simp_all add: pipe_flush_def Let_def)

lemma scan_char_quotes_exclusive:
  "\<not> (in_single_quote st \<and> in_double_quote st) \<Longrightarrow>
   \<not> (in_single_quote (scan_char st c) \<and> in_double_quote (scan_char st c))"
  by (auto simp: scan_char_def pipe_flush_flags)

lemma scan_quotes_exclusive:
  "\<not> (in_single_quote st \<and> in_double_quote st) \<Longrightarrow>
   \<not> (in_single_quote (scan st xs) \<and> in_double_quote (scan st xs))"
proof (induction st xs rule: scan.induct)
  case (1 st)
  then show ?case by simp
next
  case (2 st c)
  then show ?case using scan_char_quotes_exclusive[of st c] by simp
next
  case (3 st c d cs)
  then show ?case using scan_char_quotes_exclusive[of st c] by (simp split: if_splits)
qed

lemma scan_char_closing_quote:
  assumes "\<not> (in_single_quote st \<and> in_double_quote st)"
    and "(if in_single_quote st then Some squote
          else if in_double_quote st then Some dquote else None) = Some q"
  shows "scan_finish (scan_char st q) = scan_finish st"
  using assms
  by (auto simp: scan_char_def scan_finish_def squote_def dquote_def split: if_splits)

lemma open_quote_Nil: "open_quote [] = None"
  by (simp add: open_quote_def scan_init_def)

text \<open>
  C2, as amended. For a line that ends inside a single or double quote (and whose last
  character is not a backslash read as an ordinary character), no failure is raised for
  the open quote: the quote is closed at the end of the line, and the line is split into
  the same segments, and handled by the session in the same way, as the line with the
  missing closing quote added.
\<close>

theorem open_quote_closed_at_end_of_line:
  assumes "open_quote line = Some q" and "\<not> ends_in_backslash line"
  shows "parse_pipeline line = parse_pipeline (line @ [q])
       \<and> shell_execute_command env line = shell_execute_command env (line @ [q])"
proof -
  let ?st = "scan scan_init line"
  have ex: "\<not> (in_single_quote ?st \<and> in_double_quote ?st)"
    by (rule scan_quotes_exclusive) (simp add: scan_init_def)
  have "scan scan_init (line @ [q]) = scan_char ?st q"
    using scan_append[OF assms(2), of scan_init "[q]"] by simp
  moreover have "scan_finish (scan_char ?st q) = scan_finish ?st"
    using assms(1) by (intro scan_char_closing_quote[OF ex]) (simp add: open_quote_def Let_def)
  ultimately have pp: "parse_pipeline line = parse_pipeline (line @ [q])"
    by (simp add: parse_pipeline_def)
  have "line \<noteq> []" using assms(1) open_quote_Nil by auto
  then have "parse_command env line = parse_command env (line @ [q])"
    by (simp add: parse_command_def pp)
  then show ?thesis using pp by (simp add: shell_execute_command_def)
qed

theorem open_quote_closed_at_end_of_line_witness:
  "open_quote (''cat '' @ [squote] @ ''a b'') = Some squote
   \<and> \<not> ends_in_backslash (''cat '' @ [squote] @ ''a b'')
   \<and> shell_execute_command Map.empty (''cat '' @ [squote] @ ''a b'') =
       [Process_manager_execute_command (new_Command\<lparr>arguments := [''cat'', ''a b'']\<rparr>)]"
proof -
  have h1: "open_quote (''cat '' @ [squote] @ ''a b'') = Some squote"
    by code_simp
  have h2: "\<not> ends_in_backslash (''cat '' @ [squote] @ ''a b'')"
    by code_simp
  have "shell_execute_command Map.empty ((''cat '' @ [squote] @ ''a b'') @ [squote]) =
       [Process_manager_execute_command (new_Command\<lparr>arguments := [''cat'', ''a b'']\<rparr>)]"
    by code_simp
  then show ?thesis
    using open_quote_closed_at_end_of_line [OF h1 h2, of Map.empty] h1 h2 by simp
qed

text \<open>
  C2 as stated fails on the line \<^verbatim>\<open>echo "abc\<close>: it ends inside a double quote, the
  tokenizer returns the tokens \<^verbatim>\<open>echo\<close> and \<^verbatim>\<open>abc\<close>, no failure is reported, and the
  built-in \<^verbatim>\<open>echo\<close> is run with the argument \<^verbatim>\<open>abc\<close>.
\<close>

theorem unterminated_quote_is_executed:
  "open_quote (''echo '' @ [dquote] @ ''abc'') = Some dquote
   \<and> tokenize_with_quotes (''echo '' @ [dquote] @ ''abc'') = [''echo'', ''abc'']
   \<and> shell_execute_command Map.empty (''echo '' @ [dquote] @ ''abc'') =
       [Execute_builtin
          \<lparr>arguments = [''echo'', ''abc''], input_file = [], output_file = [],
           append_output = False, background = False, is_pipeline = False\<rparr>]"
  by code_simp

subsection \<open>Sequencing tokens\<close>

lemma plain_char_scan:
  "plain_char c \<Longrightarrow> \<not> in_single_quote st \<Longrightarrow> \<not> in_double_quote st \<Longrightarrow>
   scan_char st c = st\<lparr>current_token := current_token st @ [c]\<rparr>"
  by (simp add: plain_char_def scan_char_def)

lemma scan_plain:
  "list_all plain_char w \<Longrightarrow> \<not> in_single_quote st \<Longrightarrow> \<not> in_double_quote st \<Longrightarrow>
   scan st (w @ rest) = scan (st\<lparr>current_token := current_token st @ w\<rparr>) rest"
proof (induction w arbitrary: st)
  case Nil
  then show ?case by simp
next
  case (Cons c w)
  then have c: "plain_char c" and w: "list_all plain_char w" by simp_all
  have "c \<noteq> backslash" using c by (simp add: plain_char_def)
  then have "scan st ((c # w) @ rest) = scan (scan_char st c) (w @ rest)"
    by (simp add: scan_cons)
  also have "\<dots> = scan (st\<lparr>current_token := current_token st @ [c]\<rparr>) (w @ rest)"
    using c Cons.prems by (simp add: plain_char_scan)
  also have "\<dots> = scan (st\<lparr>current_token := current_token st @ [c]\<rparr>
                        \<lparr>current_token := current_token (st\<lparr>current_token := current_token st @ [c]\<rparr>) @ w\<rparr>) rest"
    by (rule Cons.IH) (use w Cons.prems in simp_all)
  finally show ?case by simp
qed

lemma scan_space:
  "\<not> in_single_quote st \<Longrightarrow> \<not> in_double_quote st \<Longrightarrow> current_token st \<noteq> [] \<Longrightarrow>
   scan st (CHR '' '' # rest) =
     scan (st\<lparr>current_tokens := current_tokens st @ [current_token st], current_token := []\<rparr>) rest"
  by (simp add: scan_cons backslash_def scan_char_def squote_def dquote_def pipe_char_def isspace_def)

lemma scan_words:
  "list_all plain_word ws \<Longrightarrow> ws \<noteq> [] \<Longrightarrow> \<not> in_single_quote st \<Longrightarrow> \<not> in_double_quote st \<Longrightarrow>
   current_token st = [] \<Longrightarrow>
   scan st (join_words ws) =
     st\<lparr>current_tokens := current_tokens st @ butlast ws, current_token := last ws\<rparr>"
proof (induction ws arbitrary: st rule: join_words.induct)
  case 1
  then show ?case by simp
next
  case (2 w)
  then show ?case
    using scan_plain[of w st "[]"] by (simp add: plain_word_def)
next
  case (3 w v ws)
  then have w: "list_all plain_char w" "w \<noteq> []" by (simp_all add: plain_word_def)
  let ?st1 = "st\<lparr>current_token := w\<rparr>"
  let ?st2 = "st\<lparr>current_tokens := current_tokens st @ [w], current_token := []\<rparr>"
  have "scan st (join_words (w # v # ws)) = scan ?st1 (CHR '' '' # join_words (v # ws))"
    using scan_plain[OF w(1) "3.prems"(3,4), of "CHR '' '' # join_words (v # ws)"] "3.prems"(5)
    by simp
  also have "\<dots> = scan ?st2 (join_words (v # ws))"
    using scan_space[of ?st1 "join_words (v # ws)"] "3.prems"(3,4) w(2) by simp
  also have "\<dots> = ?st2\<lparr>current_tokens := current_tokens ?st2 @ butlast (v # ws),
                          current_token := last (v # ws)\<rparr>"
    by (rule "3.IH") (use "3.prems" in simp_all)
  finally show ?case by simp
qed

lemma parse_pipeline_words:
  assumes "list_all plain_word ws" and "ws \<noteq> []"
  shows "parse_pipeline (join_words ws) = [ws]"
proof -
  have "last ws \<in> set ws" using assms(2) by simp
  then have "last ws \<noteq> []" using assms(1) by (auto simp: list_all_iff plain_word_def)
  then show ?thesis
    using scan_words[OF assms, of scan_init] assms(2)
    by (simp add: parse_pipeline_def scan_finish_def scan_init_def)
qed

lemma plain_word_expand: "plain_word w \<Longrightarrow> expand_variables_in_token env w = w"
  by (rule expand_no_dollar) (auto simp: plain_word_def list_all_iff plain_char_def)

text \<open>
  C5, as amended. In a line of words separated by single spaces, where no word contains
  whitespace, a quote, a backslash, \<^verbatim>\<open>|\<close> or \<^verbatim>\<open>$\<close>, no word is \<^verbatim>\<open><\<close>, \<^verbatim>\<open>>\<close> or \<^verbatim>\<open>>>\<close>
  and the last word is not \<^verbatim>\<open>&\<close>, every word, \<^verbatim>\<open>;\<close> and \<^verbatim>\<open>&&\<close> included, is passed
  through unchanged and in order as an argument of the one Command of the line.
\<close>

theorem plain_words_pass_through:
  assumes "ws \<noteq> []" and "list_all plain_word ws"
    and "list_all (\<lambda>w. \<not> is_redirection_operator w) ws" and "last ws \<noteq> ''&''"
  shows "parse_command env (join_words ws) = Some (new_Command\<lparr>arguments := ws\<rparr>)"
proof -
  have pp: "parse_pipeline (join_words ws) = [ws]"
    by (rule parse_pipeline_words) fact+
  have "parse_pipeline [] = []"
    by (simp add: parse_pipeline_def scan_finish_def scan_init_def)
  then have ne: "join_words ws \<noteq> []" using pp by auto
  have "expand_variables env ws = ws"
    using assms(2) by (simp add: expand_variables_def list_all_iff plain_word_expand map_idI)
  then have "parse_single_command env ws = Some (new_Command\<lparr>arguments := ws\<rparr>)"
    using assms(1,4) parse_redirection_plain[OF assms(3), of new_Command]
    by (simp add: parse_single_command_def parse_background_def)
  then show ?thesis using ne pp by (simp add: parse_command_def)
qed

theorem plain_words_pass_through_witness:
  "[''a'', '';'', ''b'', ''&&'', ''c''] \<noteq> []
   \<and> list_all plain_word [''a'', '';'', ''b'', ''&&'', ''c'']
   \<and> list_all (\<lambda>w. \<not> is_redirection_operator w) [''a'', '';'', ''b'', ''&&'', ''c'']
   \<and> last [''a'', '';'', ''b'', ''&&'', ''c''] \<noteq> ''&''
   \<and> parse_command Map.empty ''a ; b && c'' =
       Some (new_Command\<lparr>arguments := [''a'', '';'', ''b'', ''&&'', ''c'']\<rparr>)"
proof -
  have h1: "[''a'', '';'', ''b'', ''&&'', ''c''] \<noteq> []"
    by simp
  have h2: "list_all plain_word [''a'', '';'', ''b'', ''&&'', ''c'']"
    by code_simp
  have h3: "list_all (\<lambda>w. \<not> is_redirection_operator w) [''a'', '';'', ''b'', ''&&'', ''c'']"
    by code_simp
  have h4: "last [''a'', '';'', ''b'', ''&&'', ''c''] \<noteq> ''&''"
    by simp
  show ?thesis
    using plain_words_pass_through [OF h1 h2 h3 h4, of Map.empty] h2 h3 by simp
qed

text \<open>
  C5 as stated fails for \<^verbatim>\<open>||\<close>: in \<^verbatim>\<open>a || b\<close> each \<^verbatim>\<open>|\<close> ends a segment, the line is
  taken as a pipeline, and neither \<^verbatim>\<open>||\<close> nor \<^verbatim>\<open>b\<close> is among the arguments.
\<close>

theorem double_pipe_is_split:
  "parse_pipeline ''a || b'' = [[''a'', []], [''b'']]
   \<and> shell_execute_command Map.empty ''a || b'' =
       [Print_pipeline_notice,
        Process_manager_execute_command
          \<lparr>arguments = [''a'', []], input_file = [], output_file = [],
           append_output = False, background = False, is_pipeline = True\<rparr>]"
  by code_simp

subsection \<open>A redirection operator without operand\<close>

lemma redirection_operator_plain_word: "is_redirection_operator op \<Longrightarrow> plain_word op"
  by (auto simp: is_redirection_operator_def plain_word_def plain_char_def isspace_def
      backslash_def squote_def dquote_def pipe_char_def dollar_def)

text \<open>
  C4, as amended. In a line of words separated by single spaces, where no word contains
  whitespace, a quote, a backslash, \<^verbatim>\<open>|\<close> or \<^verbatim>\<open>$\<close>, whose last word is \<^verbatim>\<open><\<close>, \<^verbatim>\<open>>\<close> or
  \<^verbatim>\<open>>>\<close> and whose other words are none of these, the missing operand is no parse
  failure: one Command is built, with no redirection set and with all the words, the
  operator last, as its arguments, and the session executes it, as a built-in when its
  first word names one and through the process manager otherwise.
\<close>

theorem line_ending_in_redirection_operator_is_executed:
  assumes "is_redirection_operator op"
    and "list_all plain_word ws"
    and "list_all (\<lambda>w. \<not> is_redirection_operator w) ws"
  shows "parse_command env (join_words (ws @ [op])) =
           Some (new_Command\<lparr>arguments := ws @ [op]\<rparr>)
       \<and> shell_execute_command env (join_words (ws @ [op])) =
           (if is_builtin (hd (ws @ [op]))
            then [Execute_builtin (new_Command\<lparr>arguments := ws @ [op]\<rparr>)]
            else [Process_manager_execute_command (new_Command\<lparr>arguments := ws @ [op]\<rparr>)])"
proof -
  have pw: "list_all plain_word (ws @ [op])"
    using assms(1,2) by (simp add: redirection_operator_plain_word)
  have pp: "parse_pipeline (join_words (ws @ [op])) = [ws @ [op]]"
    by (rule parse_pipeline_words) (use pw in simp_all)
  have "parse_pipeline [] = []"
    by (simp add: parse_pipeline_def scan_finish_def scan_init_def)
  then have ne: "join_words (ws @ [op]) \<noteq> []"
    using pp by auto
  have ex: "expand_variables env ws = ws"
    using assms(2) by (simp add: expand_variables_def list_all_iff plain_word_expand map_idI)
  have sc: "parse_single_command env (ws @ [op]) =
              Some (new_Command\<lparr>arguments := ws @ [op]\<rparr>)"
    using parse_single_command_trailing_operator [OF assms(1,3), of env] ex by simp
  have pc: "parse_command env (join_words (ws @ [op])) =
              Some (new_Command\<lparr>arguments := ws @ [op]\<rparr>)"
    using ne pp sc by (simp add: parse_command_def)
  show ?thesis
    using pc by (simp add: shell_execute_command_def new_Command_def)
qed

theorem line_ending_in_redirection_operator_is_executed_witness:
  "is_redirection_operator ''>''
   \<and> list_all plain_word [''echo'', ''hi'']
   \<and> list_all (\<lambda>w. \<not> is_redirection_operator w) [''echo'', ''hi'']
   \<and> shell_execute_command Map.empty ''echo hi >'' =
       [Execute_builtin (new_Command\<lparr>arguments := [''echo'', ''hi'', ''>'']\<rparr>)]"
proof -
  have h1: "is_redirection_operator ''>''"
    by code_simp
  have h2: "list_all plain_word [''echo'', ''hi'']"
    by code_simp
  have h3: "list_all (\<lambda>w. \<not> is_redirection_operator w) [''echo'', ''hi'']"
    by code_simp
  have b: "is_builtin ''echo''"
    by code_simp
  show ?thesis
    using line_ending_in_redirection_operator_is_executed [OF h1 h2 h3, of Map.empty] h1 h2 h3 b
    by simp
qed

text \<open>
  C4 as stated fails on the line \<^verbatim>\<open>cat <\<close>: no failure is reported, and the Command with
  the arguments \<^verbatim>\<open>cat\<close> and \<^verbatim>\<open><\<close> is handed to the process manager.
\<close>

theorem missing_operand_is_executed:
  "shell_execute_command Map.empty ''cat <'' =
     [Process_manager_execute_command
        \<lparr>arguments = [''cat'', ''<''], input_file = [], output_file = [],
         append_output = False, background = False, is_pipeline = False\<rparr>]"
  by code_simp

end
